theory Spec2Isabelle
  imports Main "HOL-Library.Word" "HOL-Library.Multiset" "HOL-Library.List_Lexorder"
    "HOL-Library.Char_ord"
begin

section \<open>Errors and platform primitives\<close>

text \<open>
  A thrown JavaScript \<open>Error\<close> is a value carrying its message; an operation that may
  throw returns \<open>error + 'a\<close> with \<open>Inl\<close> for the throw.
\<close>

datatype error = Error (message: string)

type_synonym byte = "8 word"

text \<open>
  \<open>String.prototype.includes\<close>: the argument occurs as a contiguous run of characters.
\<close>

fun starts_with :: "string \<Rightarrow> string \<Rightarrow> bool" where
  "starts_with s [] = True"
| "starts_with [] (p # ps) = False"
| "starts_with (c # cs) (p # ps) = (c = p \<and> starts_with cs ps)"

fun str_includes :: "string \<Rightarrow> string \<Rightarrow> bool" where
  "str_includes [] p = (p = [])"
| "str_includes (c # cs) p = (starts_with (c # cs) p \<or> str_includes cs p)"

text \<open>
  \<open>String.prototype.split\<close> with a one-character separator: the pieces between the
  separators, the empty string giving one empty piece.
\<close>

fun js_split :: "char \<Rightarrow> string \<Rightarrow> string list" where
  "js_split sep [] = [[]]"
| "js_split sep (c # cs) =
     (if c = sep then [] # js_split sep cs
      else (case js_split sep cs of
              [] \<Rightarrow> [[c]]
            | p # ps \<Rightarrow> (c # p) # ps))"

text \<open>
  \<open>String.fromCharCode(...bytes)\<close> builds a binary string, one character per byte, and
  \<open>Uint8Array.from(s, c => c.charCodeAt(0))\<close> reads it back. A \<open>char\<close> is eight bits
  wide, so a \<open>string\<close> is exactly a binary string.
\<close>

definition fromCharCode :: "byte list \<Rightarrow> string" where
  "fromCharCode bs = map (\<lambda>b. char_of (unat b)) bs"

definition charCodes :: "string \<Rightarrow> byte list" where
  "charCodes s = map (\<lambda>c. word_of_nat (of_char c)) s"

text \<open>
  \<open>TextEncoder.encode\<close>: a password is held as the characters of its UTF-8 encoding, so
  the encoder reads the bytes off.
\<close>

definition encode :: "string \<Rightarrow> byte list" where
  "encode s = charCodes s"

subsection \<open>Base64: \<open>btoa\<close> and \<open>atob\<close>\<close>

definition b64_alphabet :: string where
  "b64_alphabet = ''ABCDEFGHIJKLMNOPQRSTUVWXYZabcdefghijklmnopqrstuvwxyz0123456789+/''"

definition b64_char :: "nat \<Rightarrow> char" where
  "b64_char n = b64_alphabet ! n"

fun index_of :: "'a \<Rightarrow> 'a list \<Rightarrow> nat option" where
  "index_of x [] = None"
| "index_of x (y # ys) = (if x = y then Some 0 else map_option Suc (index_of x ys))"

definition b64_index :: "char \<Rightarrow> nat option" where
  "b64_index c = index_of c b64_alphabet"

text \<open>Three bytes become four six-bit groups; a last group of one or two bytes is
  filled with zero bits.\<close>

fun sextets :: "nat list \<Rightarrow> nat list" where
  "sextets (a # b # c # rest) =
     [a div 4, (a mod 4) * 16 + b div 16, (b mod 16) * 4 + c div 64, c mod 64] @ sextets rest"
| "sextets [a, b] = [a div 4, (a mod 4) * 16 + b div 16, (b mod 16) * 4]"
| "sextets [a] = [a div 4, (a mod 4) * 16]"
| "sextets [] = []"

definition b64_padding :: "nat \<Rightarrow> string" where
  "b64_padding n = replicate ((3 - n mod 3) mod 3) (CHR ''='')"

definition btoa :: "string \<Rightarrow> string" where
  "btoa s = map b64_char (sextets (map of_char s)) @ b64_padding (length s)"

text \<open>
  \<open>atob\<close> is the forgiving-base64 decode: ASCII whitespace is dropped; when the length
  is a multiple of four, one or two trailing \<open>=\<close> are dropped; a length of 1 modulo 4
  or a character outside the alphabet throws (here \<open>None\<close>); each four characters give
  three bytes, a rest of two or three characters gives one or two bytes.
\<close>

definition is_ascii_whitespace :: "char \<Rightarrow> bool" where
  "is_ascii_whitespace c = ((of_char c :: nat) \<in> {9, 10, 12, 13, 32})"

definition strip_eq :: "string \<Rightarrow> string" where
  "strip_eq d = (if d \<noteq> [] \<and> last d = CHR ''='' then butlast d else d)"

fun index_all :: "string \<Rightarrow> nat list option" where
  "index_all [] = Some []"
| "index_all (c # cs) =
     (case b64_index c of
        None \<Rightarrow> None
      | Some i \<Rightarrow> (case index_all cs of None \<Rightarrow> None | Some is \<Rightarrow> Some (i # is)))"

fun octets :: "nat list \<Rightarrow> nat list" where
  "octets (a # b # c # d # rest) =
     [a * 4 + b div 16, (b mod 16) * 16 + c div 4, (c mod 4) * 64 + d] @ octets rest"
| "octets [a, b, c] = [a * 4 + b div 16, (b mod 16) * 16 + c div 4]"
| "octets [a, b] = [a * 4 + b div 16]"
| "octets [a] = []"
| "octets [] = []"

definition atob :: "string \<Rightarrow> string option" where
  "atob data =
     (let d = filter (\<lambda>c. \<not> is_ascii_whitespace c) data;
          d = (if length d mod 4 = 0 then strip_eq (strip_eq d) else d)
      in if length d mod 4 = 1 then None
         else (case index_all d of
                 None \<Rightarrow> None
               | Some is \<Rightarrow> Some (map char_of (octets is))))"

subsection \<open>Key derivation and the environment of a call\<close>

text \<open>
  \<open>crypto.subtle.deriveBits\<close> with PBKDF2 is not code of this repository. PBKDF2 defines
  its output byte by byte from the hash, the password, the salt and the iteration
  count, so the primitive is a parameter giving the byte at each index, and
  \<open>deriveBits\<close> takes the requested number of bits from it.
\<close>

datatype hash_name = SHA_1 | SHA_256 | SHA_384 | SHA_512

record pbkdf2_params =
  salt :: "byte list"
  iterations :: nat
  hash :: hash_name

type_synonym kdf = "pbkdf2_params \<Rightarrow> byte list \<Rightarrow> nat \<Rightarrow> byte"

definition deriveBits :: "kdf \<Rightarrow> pbkdf2_params \<Rightarrow> byte list \<Rightarrow> nat \<Rightarrow> byte list" where
  "deriveBits kdf params key len = map (kdf params key) [0 ..< len div 8]"

text \<open>
  What a call reads from outside the store: \<open>Date.now()\<close>, the results of
  \<open>crypto.randomUUID()\<close> in the order they are drawn, and the random bytes behind
  \<open>crypto.getRandomValues\<close>.
\<close>

record env =
  now :: int
  randomUUID :: "nat \<Rightarrow> string"
  random :: "nat \<Rightarrow> byte"

definition getRandomValues :: "env \<Rightarrow> nat \<Rightarrow> byte list" where
  "getRandomValues e n = map (random e) [0 ..< n]"

section \<open>Password hashing\<close>

definition hashPassword :: "kdf \<Rightarrow> env \<Rightarrow> string \<Rightarrow> string" where
  "hashPassword kdf e password =
     (let salt = getRandomValues e 16;
          bits = deriveBits kdf \<lparr>salt = salt, iterations = 100000, hash = SHA_256\<rparr>
                   (encode password) 256;
          saltBase64 = btoa (fromCharCode salt);
          hashBase64 = btoa (fromCharCode bits)
      in saltBase64 @ '':'' @ hashBase64)"

definition verifyPassword :: "kdf \<Rightarrow> string \<Rightarrow> string \<Rightarrow> error + bool" where
  "verifyPassword kdf password hash_str =
     (case js_split (CHR '':'') hash_str of
        saltBase64 # storedHash # _ \<Rightarrow>
          if saltBase64 = [] \<or> storedHash = [] then Inr False
          else (case atob saltBase64 of
                  None \<Rightarrow> Inl (Error ''InvalidCharacterError: Invalid character'')
                | Some bin \<Rightarrow>
                    let salt = charCodes bin;
                        bits = deriveBits kdf \<lparr>salt = salt, iterations = 100000, hash = SHA_256\<rparr>
                                 (encode password) 256;
                        candidateHash = btoa (fromCharCode bits)
                    in Inr (candidateHash = storedHash))
      | _ \<Rightarrow> Inr False)"

section \<open>Tables and stores\<close>

text \<open>
  One record per table row, the fields named after the columns with the table's
  initial in front. Integer columns (flags, epoch milliseconds) are \<open>int\<close>; a nullable
  text column is a \<open>string option\<close>. A table is the list of its rows in insertion order.
\<close>

record user_row =
  u_id :: string
  u_email :: string
  u_password_hash :: string
  u_is_admin :: int
  u_created_at :: int
  u_updated_at :: int

record session_row =
  s_id :: string
  s_user_id :: string
  s_expires_at :: int
  s_created_at :: int

record grant_row =
  g_user_id :: string
  g_mailbox_id :: string
  g_role :: string

record folder_row =
  f_id :: string
  f_name :: string
  f_is_deletable :: int

record email_row =
  e_id :: string
  e_subject :: string
  e_sender :: string
  e_recipient :: string
  e_date :: string
  e_body :: string
  e_read :: int
  e_starred :: int
  e_folder_id :: string
  e_in_reply_to :: "string option"
  e_email_references :: "string option"
  e_thread_id :: "string option"

record attachment_row =
  a_id :: string
  a_email_id :: string
  a_filename :: string
  a_mimetype :: string
  a_size :: int
  a_content_id :: "string option"
  a_disposition :: "string option"

record auth_db =
  users :: "user_row list"
  sessions :: "session_row list"
  user_mailboxes :: "grant_row list"

record mailbox_db =
  folders :: "folder_row list"
  emails :: "email_row list"
  attachments :: "attachment_row list"

text \<open>
  The constructor fixes \<open>#isAuthDO\<close> and applies the migrations of that kind only, so an
  instance holds either the credential tables or the mailbox tables.
\<close>

datatype store = AuthStore auth_db | MailboxStore mailbox_db

fun isAuthDO :: "store \<Rightarrow> bool" where
  "isAuthDO (AuthStore db) = True"
| "isAuthDO (MailboxStore db) = False"

text \<open>The values of \<open>types.ts\<close> and the objects the mailbox operations return.\<close>

record Session =
  session_id :: string
  session_userId :: string
  session_email :: string
  session_isAdmin :: bool
  session_expiresAt :: int

record User =
  user_id :: string
  user_email :: string
  user_isAdmin :: bool
  user_createdAt :: int
  user_updatedAt :: int

record Folder =
  folder_id :: string
  folder_name :: string
  unreadCount :: int

record EmailItem =
  item_id :: string
  item_subject :: string
  item_sender :: string
  item_recipient :: string
  item_date :: string
  item_read :: bool
  item_starred :: bool
  item_in_reply_to :: "string option"
  item_email_references :: "string option"
  item_thread_id :: "string option"

subsection \<open>The query layer\<close>

text \<open>
  The statements the query builder issues, on tables as lists: \<open>.one()\<close> is the first
  matching row, a select keeps the matching rows in table order, a delete drops them,
  an update rewrites them in place.
\<close>

definition sql_one :: "('r \<Rightarrow> bool) \<Rightarrow> 'r list \<Rightarrow> 'r option" where
  "sql_one P rows = find P rows"

definition sql_select :: "('r \<Rightarrow> bool) \<Rightarrow> 'r list \<Rightarrow> 'r list" where
  "sql_select P rows = filter P rows"

definition sql_delete :: "('r \<Rightarrow> bool) \<Rightarrow> 'r list \<Rightarrow> 'r list" where
  "sql_delete P rows = filter (\<lambda>r. \<not> P r) rows"

definition sql_update :: "('r \<Rightarrow> bool) \<Rightarrow> ('r \<Rightarrow> 'r) \<Rightarrow> 'r list \<Rightarrow> 'r list" where
  "sql_update P f rows = map (\<lambda>r. if P r then f r else r) rows"

text \<open>
  Modelled from the spec: the table declarations (\<open>migrations.ts\<close>, imported by
  \<open>durableObject/index.ts\<close>) are not under \<open>src/\<close>. Section 3 of the spec gives the
  constraints an insert is checked against: a user's id is unique and its email is
  unique; a folder's id is unique and its name is unique; a mailbox access grant has
  the composite key (user_id, mailbox_id); nothing is said to be unique of a session.
  A violated constraint throws with SQLite's message \<open>UNIQUE constraint failed: table.column\<close>.
\<close>

definition insert_user :: "user_row \<Rightarrow> user_row list \<Rightarrow> error + user_row list" where
  "insert_user r rows =
     (if u_id r \<in> set (map u_id rows) then Inl (Error ''UNIQUE constraint failed: users.id'')
      else if u_email r \<in> set (map u_email rows)
        then Inl (Error ''UNIQUE constraint failed: users.email'')
      else Inr (rows @ [r]))"

definition insert_session :: "session_row \<Rightarrow> session_row list \<Rightarrow> error + session_row list" where
  "insert_session r rows = Inr (rows @ [r])"

definition insert_grant :: "grant_row \<Rightarrow> grant_row list \<Rightarrow> error + grant_row list" where
  "insert_grant r rows =
     (if (g_user_id r, g_mailbox_id r) \<in> set (map (\<lambda>x. (g_user_id x, g_mailbox_id x)) rows)
        then Inl (Error ''UNIQUE constraint failed: user_mailboxes.user_id, user_mailboxes.mailbox_id'')
      else Inr (rows @ [r]))"

definition insert_folder :: "folder_row \<Rightarrow> folder_row list \<Rightarrow> error + folder_row list" where
  "insert_folder r rows =
     (if f_id r \<in> set (map f_id rows) then Inl (Error ''UNIQUE constraint failed: folders.id'')
      else if f_name r \<in> set (map f_name rows)
        then Inl (Error ''UNIQUE constraint failed: folders.name'')
      else Inr (rows @ [r]))"

text \<open>
  Modelled from the spec: the foreign key of the attachments table is declared in the
  same missing \<open>migrations.ts\<close>. Section 3 of the spec: deleting an email cascades to
  its attachments. The cascade runs for the email rows the delete removes.
\<close>

definition delete_email_rows :: "string \<Rightarrow> mailbox_db \<Rightarrow> mailbox_db" where
  "delete_email_rows i db =
     db\<lparr>emails := sql_delete (\<lambda>e. e_id e = i) (emails db),
        attachments :=
          (if i \<in> set (map e_id (emails db))
           then sql_delete (\<lambda>a. a_email_id a = i) (attachments db)
           else attachments db)\<rparr>"

text \<open>A statement on a table the instance's schema does not have throws.\<close>

definition no_such_table :: "string \<Rightarrow> error" where
  "no_such_table t = Error (''no such table: '' @ t)"

definition not_auth :: error where
  "not_auth = Error ''Not an auth DO''"

section \<open>Credential operations\<close>

text \<open>
  Each operation takes the store and returns the thrown error or its result, with the
  store after the call when the operation writes. The \<open>for\<close> loop of
  \<open>ensureDefaultAdmins\<close> is \<open>seed_admins\<close>: one insert per address, each under its own
  \<open>try\<close> with an empty \<open>catch\<close>, the \<open>i\<close>-th draw of \<open>randomUUID\<close> as the id.
\<close>

fun seed_admins :: "env \<Rightarrow> string \<Rightarrow> nat \<Rightarrow> string list \<Rightarrow> user_row list \<Rightarrow> user_row list" where
  "seed_admins e passwordHash i [] rows = rows"
| "seed_admins e passwordHash i (email # rest) rows =
     (case insert_user \<lparr>u_id = randomUUID e i, u_email = email,
                         u_password_hash = passwordHash, u_is_admin = 1,
                         u_created_at = now e, u_updated_at = now e\<rparr> rows of
        Inl err \<Rightarrow> seed_admins e passwordHash (Suc i) rest rows
      | Inr rows' \<Rightarrow> seed_admins e passwordHash (Suc i) rest rows')"

definition admins :: "string list" where
  "admins = [''admin@email.230406.xyz'', ''admin@230406.xyz'']"

definition ensureDefaultAdmins :: "kdf \<Rightarrow> env \<Rightarrow> store \<Rightarrow> error + store" where
  "ensureDefaultAdmins kdf e st =
     (case st of
        MailboxStore m \<Rightarrow> Inl not_auth
      | AuthStore db \<Rightarrow>
          if int (length (users db)) > 0 then Inr st
          else
            let passwordHash = hashPassword kdf e ''admin''
            in Inr (AuthStore (db\<lparr>users := seed_admins e passwordHash 0 admins (users db)\<rparr>)))"

definition generateToken :: "env \<Rightarrow> string" where
  "generateToken e = randomUUID e 0"

definition hasUsers :: "store \<Rightarrow> error + bool" where
  "hasUsers st =
     (case st of
        MailboxStore m \<Rightarrow> Inr False
      | AuthStore db \<Rightarrow> Inr (int (length (users db)) > 0))"

definition isAdmin :: "string \<Rightarrow> store \<Rightarrow> error + bool" where
  "isAdmin userId st =
     (case st of
        MailboxStore m \<Rightarrow> Inr False
      | AuthStore db \<Rightarrow>
          (case sql_one (\<lambda>u. u_id u = userId) (users db) of
             None \<Rightarrow> Inr False
           | Some u \<Rightarrow> Inr (u_is_admin u = 1)))"

definition register :: "kdf \<Rightarrow> env \<Rightarrow> string \<Rightarrow> string \<Rightarrow> bool \<Rightarrow> store \<Rightarrow> error + (User \<times> store)" where
  "register kdf e email password isFirstUser st =
     (case st of
        MailboxStore m \<Rightarrow> Inl not_auth
      | AuthStore db \<Rightarrow>
          let userId = randomUUID e 0;
              passwordHash = hashPassword kdf e password
          in (case insert_user \<lparr>u_id = userId, u_email = email,
                                 u_password_hash = passwordHash,
                                 u_is_admin = (if isFirstUser then 1 else 0),
                                 u_created_at = now e, u_updated_at = now e\<rparr> (users db) of
                Inl err \<Rightarrow> Inl err
              | Inr rows \<Rightarrow>
                  Inr (\<lparr>user_id = userId, user_email = email, user_isAdmin = isFirstUser,
                        user_createdAt = now e, user_updatedAt = now e\<rparr>,
                       AuthStore (db\<lparr>users := rows\<rparr>))))"

definition login :: "kdf \<Rightarrow> env \<Rightarrow> string \<Rightarrow> string \<Rightarrow> store \<Rightarrow> error + (Session option \<times> store)" where
  "login kdf e email password st =
     (case st of
        MailboxStore m \<Rightarrow> Inl not_auth
      | AuthStore db \<Rightarrow>
          (case sql_one (\<lambda>u. u_email u = email) (users db) of
             None \<Rightarrow> Inr (None, st)
           | Some user \<Rightarrow>
               (case verifyPassword kdf password (u_password_hash user) of
                  Inl err \<Rightarrow> Inl err
                | Inr isValid \<Rightarrow>
                    if \<not> isValid then Inr (None, st)
                    else
                      let sessionId = generateToken e;
                          expiresAt = now e + 30 * 24 * 60 * 60 * 1000
                      in (case insert_session \<lparr>s_id = sessionId, s_user_id = u_id user,
                                                 s_expires_at = expiresAt,
                                                 s_created_at = now e\<rparr> (sessions db) of
                            Inl err \<Rightarrow> Inl err
                          | Inr rows \<Rightarrow>
                              Inr (Some \<lparr>session_id = sessionId, session_userId = u_id user,
                                         session_email = u_email user,
                                         session_isAdmin = (u_is_admin user = 1),
                                         session_expiresAt = expiresAt\<rparr>,
                                   AuthStore (db\<lparr>sessions := rows\<rparr>))))))"

definition validateSession :: "env \<Rightarrow> string \<Rightarrow> store \<Rightarrow> error + (Session option \<times> store)" where
  "validateSession e sessionId st =
     (case st of
        MailboxStore m \<Rightarrow> Inl not_auth
      | AuthStore db \<Rightarrow>
          (case sql_one (\<lambda>s. s_id s = sessionId) (sessions db) of
             None \<Rightarrow> Inr (None, st)
           | Some session \<Rightarrow>
               let expiresAt = s_expires_at session
               in if expiresAt < now e
                  then Inr (None,
                            AuthStore (db\<lparr>sessions :=
                              sql_delete (\<lambda>s. s_id s = sessionId) (sessions db)\<rparr>))
                  else (case sql_one (\<lambda>u. u_id u = s_user_id session) (users db) of
                          None \<Rightarrow> Inr (None, st)
                        | Some u \<Rightarrow>
                            Inr (Some \<lparr>session_id = s_id session,
                                       session_userId = s_user_id session,
                                       session_email = u_email u,
                                       session_isAdmin = (u_is_admin u = 1),
                                       session_expiresAt = expiresAt\<rparr>, st))))"

definition logout :: "string \<Rightarrow> store \<Rightarrow> error + (bool \<times> store)" where
  "logout sessionId st =
     (case st of
        MailboxStore m \<Rightarrow> Inl not_auth
      | AuthStore db \<Rightarrow>
          Inr (True, AuthStore (db\<lparr>sessions :=
                 sql_delete (\<lambda>s. s_id s = sessionId) (sessions db)\<rparr>)))"

definition to_User :: "user_row \<Rightarrow> User" where
  "to_User user = \<lparr>user_id = u_id user, user_email = u_email user,
                   user_isAdmin = (u_is_admin user = 1),
                   user_createdAt = u_created_at user, user_updatedAt = u_updated_at user\<rparr>"

definition getUsers :: "store \<Rightarrow> error + User list" where
  "getUsers st =
     (case st of
        MailboxStore m \<Rightarrow> Inl not_auth
      | AuthStore db \<Rightarrow> Inr (map to_User (users db)))"

definition getUserByEmail :: "string \<Rightarrow> store \<Rightarrow> error + User option" where
  "getUserByEmail email st =
     (case st of
        MailboxStore m \<Rightarrow> Inl not_auth
      | AuthStore db \<Rightarrow>
          (case sql_select (\<lambda>u. u_email u = email) (users db) of
             [] \<Rightarrow> Inr None
           | user # _ \<Rightarrow> Inr (Some (to_User user))))"

definition updateUserPassword :: "kdf \<Rightarrow> env \<Rightarrow> string \<Rightarrow> string \<Rightarrow> store \<Rightarrow> error + store" where
  "updateUserPassword kdf e userId newPassword st =
     (case st of
        MailboxStore m \<Rightarrow> Inl not_auth
      | AuthStore db \<Rightarrow>
          let hashedPassword = hashPassword kdf e newPassword
          in Inr (AuthStore (db\<lparr>users :=
                    sql_update (\<lambda>u. u_id u = userId)
                      (\<lambda>u. u\<lparr>u_password_hash := hashedPassword, u_updated_at := now e\<rparr>)
                      (users db)\<rparr>)))"

definition updateUserAdminStatus :: "env \<Rightarrow> string \<Rightarrow> bool \<Rightarrow> store \<Rightarrow> error + store" where
  "updateUserAdminStatus e userId isAdmin_flag st =
     (case st of
        MailboxStore m \<Rightarrow> Inl not_auth
      | AuthStore db \<Rightarrow>
          Inr (AuthStore (db\<lparr>users :=
                 sql_update (\<lambda>u. u_id u = userId)
                   (\<lambda>u. u\<lparr>u_is_admin := (if isAdmin_flag then 1 else 0), u_updated_at := now e\<rparr>)
                   (users db)\<rparr>)))"

definition grantMailboxAccess :: "string \<Rightarrow> string \<Rightarrow> string \<Rightarrow> store \<Rightarrow> error + store" where
  "grantMailboxAccess userId mailboxId role st =
     (case st of
        MailboxStore m \<Rightarrow> Inl not_auth
      | AuthStore db \<Rightarrow>
          (case insert_grant \<lparr>g_user_id = userId, g_mailbox_id = mailboxId, g_role = role\<rparr>
                  (user_mailboxes db) of
             Inl err \<Rightarrow> Inl err
           | Inr rows \<Rightarrow> Inr (AuthStore (db\<lparr>user_mailboxes := rows\<rparr>))))"

definition revokeMailboxAccess :: "string \<Rightarrow> string \<Rightarrow> store \<Rightarrow> error + store" where
  "revokeMailboxAccess userId mailboxId st =
     (case st of
        MailboxStore m \<Rightarrow> Inl not_auth
      | AuthStore db \<Rightarrow>
          Inr (AuthStore (db\<lparr>user_mailboxes :=
                 sql_delete (\<lambda>g. g_user_id g = userId \<and> g_mailbox_id g = mailboxId)
                   (user_mailboxes db)\<rparr>)))"

definition getUserMailboxes :: "string \<Rightarrow> store \<Rightarrow> error + (string \<times> string) list" where
  "getUserMailboxes userId st =
     (case st of
        MailboxStore m \<Rightarrow> Inl not_auth
      | AuthStore db \<Rightarrow>
          Inr (map (\<lambda>row. (g_mailbox_id row, g_role row))
                 (sql_select (\<lambda>g. g_user_id g = userId) (user_mailboxes db))))"

section \<open>Mailbox operations\<close>

text \<open>
  \<open>GetEmailsOptions\<close>: every field may be absent (\<open>None\<close> for \<open>undefined\<close>). The sort
  direction is declared \<open>"ASC" | "DESC"\<close>, which nothing checks at run time, so it is a
  string here.
\<close>

record GetEmailsOptions =
  folder :: "string option"
  page :: "int option"
  limit :: "int option"
  sortColumn :: "string option"
  sortDirection :: "string option"

text \<open>
  What the builder calls of \<open>getEmails\<close> assemble: the folder key of the sub-lookup when
  the \<open>where\<close> is added, the text handed to \<open>orderBy\<close>, the limit and the offset.
  Page and limit are JavaScript numbers holding integers; the offset is their exact
  product here, which is what the code computes as long as the numbers are safe
  integers (below \<open>2^53\<close> in absolute value).
\<close>

record emails_query =
  q_folder :: "string option"
  q_orderBy :: string
  q_limit :: int
  q_offset :: int

definition getEmails_query :: "GetEmailsOptions \<Rightarrow> emails_query" where
  "getEmails_query options =
     (let page_v = (case page options of None \<Rightarrow> 1 | Some p \<Rightarrow> p);
          limit_v = (case limit options of None \<Rightarrow> 25 | Some l \<Rightarrow> l);
          sortColumn_v = (case sortColumn options of None \<Rightarrow> ''date'' | Some c \<Rightarrow> c);
          sortDirection_v = (case sortDirection options of None \<Rightarrow> ''DESC'' | Some d \<Rightarrow> d);
          offset = (page_v - 1) * limit_v
      in \<lparr>q_folder = (case folder options of
                         None \<Rightarrow> None
                       | Some f \<Rightarrow> if f = [] then None else Some f),
          q_orderBy = sortColumn_v @ '' '' @ sortDirection_v,
          q_limit = limit_v,
          q_offset = offset\<rparr>)"

text \<open>
  The sub-lookup \<open>SELECT id FROM folders WHERE name = ? OR id = ? LIMIT 1\<close> has no
  \<open>ORDER BY\<close>. Both columns are unique, each with its index, and SQLite answers the
  terms of the \<open>OR\<close> in the order they are written, each through its index: the
  folder of that name when there is one, otherwise the folder of that id.
\<close>

definition folder_subquery :: "string \<Rightarrow> folder_row list \<Rightarrow> string option" where
  "folder_subquery key rows =
     (case sql_one (\<lambda>f. f_name f = key) rows of
        Some f \<Rightarrow> Some (f_id f)
      | None \<Rightarrow> map_option f_id (sql_one (\<lambda>f. f_id f = key) rows))"

text \<open>
  \<open>Number.isSafeInteger\<close>: on safe integers JavaScript's arithmetic is exact as long as
  the result is a safe integer.
\<close>

definition safe_integer :: "int \<Rightarrow> bool" where
  "safe_integer v = (- (2 ^ 53) < v \<and> v < 2 ^ 53)"

text \<open>The range of SQLite's 64-bit integers.\<close>

definition int64 :: "int \<Rightarrow> bool" where
  "int64 v = (- (2 ^ 63) \<le> v \<and> v < 2 ^ 63)"

text \<open>
  SQLite's \<open>LIMIT\<close> and \<open>OFFSET\<close>: both must be 64-bit integers, and a number outside
  that range throws \<open>datatype mismatch\<close>; a negative limit is no limit, a negative
  offset is 0.
\<close>

definition sql_limit_offset :: "int \<Rightarrow> int \<Rightarrow> 'r list \<Rightarrow> error + 'r list" where
  "sql_limit_offset l off rows =
     (if int64 l \<and> int64 off
      then (let rest = drop (nat off) rows in Inr (if l < 0 then rest else take (nat l) rest))
      else Inl (Error ''datatype mismatch''))"

text \<open>
  The ordering clause is text that SQLite interprets, and any text can reach it. Its
  reading of a clause over the selected rows is the parameter \<open>engine\<close>: the rows in
  the order the clause gives, or the error SQLite throws.
\<close>

type_synonym order_engine = "string \<Rightarrow> email_row list \<Rightarrow> error + email_row list"

definition execute_emails_query :: "order_engine \<Rightarrow> emails_query \<Rightarrow> mailbox_db \<Rightarrow> error + email_row list" where
  "execute_emails_query engine q db =
     (let selected =
            (case q_folder q of
               None \<Rightarrow> emails db
             | Some key \<Rightarrow>
                 (case folder_subquery key (folders db) of
                    None \<Rightarrow> []
                  | Some fid \<Rightarrow> sql_select (\<lambda>e. e_folder_id e = fid) (emails db)))
      in (case engine (q_orderBy q) selected of
            Inl err \<Rightarrow> Inl err
          | Inr ordered \<Rightarrow> sql_limit_offset (q_limit q) (q_offset q) ordered))"

definition to_item :: "email_row \<Rightarrow> EmailItem" where
  "to_item email =
     \<lparr>item_id = e_id email, item_subject = e_subject email, item_sender = e_sender email,
      item_recipient = e_recipient email, item_date = e_date email,
      item_read = (e_read email \<noteq> 0), item_starred = (e_starred email \<noteq> 0),
      item_in_reply_to = e_in_reply_to email,
      item_email_references = e_email_references email,
      item_thread_id = e_thread_id email\<rparr>"

definition getEmails :: "order_engine \<Rightarrow> GetEmailsOptions \<Rightarrow> store \<Rightarrow> error + EmailItem list" where
  "getEmails engine options st =
     (case st of
        AuthStore a \<Rightarrow> Inl (no_such_table ''emails'')
      | MailboxStore db \<Rightarrow>
          (case execute_emails_query engine (getEmails_query options) db of
             Inl err \<Rightarrow> Inl err
           | Inr rows \<Rightarrow> Inr (map to_item rows)))"

text \<open>\<open>deleteEmail\<close> selects the columns \<open>id\<close> and \<open>filename\<close> of the attachments.\<close>

definition deleteEmail :: "string \<Rightarrow> store \<Rightarrow> error + ((string \<times> string) list \<times> store)" where
  "deleteEmail i st =
     (case st of
        AuthStore a \<Rightarrow> Inl (no_such_table ''attachments'')
      | MailboxStore db \<Rightarrow>
          let attachments_v = map (\<lambda>a. (a_id a, a_filename a))
                                (sql_select (\<lambda>a. a_email_id a = i) (attachments db))
          in Inr (attachments_v, MailboxStore (delete_email_rows i db)))"

text \<open>
  The body of the \<open>try\<close> in \<open>createFolder\<close>, then the \<open>catch\<close>. A new folder takes the
  column default of \<open>is_deletable\<close>.
\<close>

definition createFolder_try :: "string \<Rightarrow> string \<Rightarrow> store \<Rightarrow> error + (Folder \<times> store)" where
  "createFolder_try i name st =
     (case st of
        AuthStore a \<Rightarrow> Inl (no_such_table ''folders'')
      | MailboxStore db \<Rightarrow>
          (case insert_folder \<lparr>f_id = i, f_name = name, f_is_deletable = 1\<rparr> (folders db) of
             Inl err \<Rightarrow> Inl err
           | Inr rows \<Rightarrow>
               Inr (\<lparr>folder_id = i, folder_name = name, unreadCount = 0\<rparr>,
                    MailboxStore (db\<lparr>folders := rows\<rparr>))))"

definition createFolder :: "string \<Rightarrow> string \<Rightarrow> store \<Rightarrow> error + (Folder option \<times> store)" where
  "createFolder i name st =
     (case createFolder_try i name st of
        Inr (newFolder, st') \<Rightarrow> Inr (Some newFolder, st')
      | Inl e \<Rightarrow>
          if str_includes (message e) ''UNIQUE constraint failed'' then Inr (None, st)
          else Inl e)"



text \<open>
  An engine orders by a clause when it accepts the clause on every selection and answers
  with the selected rows rearranged.
\<close>

definition orders :: "order_engine \<Rightarrow> string \<Rightarrow> bool" where
  "orders engine clause =
     (\<forall>rows. \<exists>ordered. engine clause rows = Inr ordered \<and> mset ordered = mset rows)"

section \<open>Concrete instances\<close>

text \<open>
  A stand-in key derivation and an environment for the concrete instances of the
  theorems below.
\<close>

definition demo_kdf :: kdf where
  "demo_kdf params key i =
     word_of_nat (i + iterations params) + (case key of [] \<Rightarrow> 0 | b # bs \<Rightarrow> b)
       + (case salt params of [] \<Rightarrow> 0 | b # bs \<Rightarrow> b)"

definition demo_env :: "int \<Rightarrow> env" where
  "demo_env t = \<lparr>now = t,
                 randomUUID = (\<lambda>i. ''uuid-'' @ replicate i (CHR ''x'')),
                 random = (\<lambda>i. word_of_nat (37 * i + 11))\<rparr>"

definition empty_auth :: auth_db where
  "empty_auth = \<lparr>users = [], sessions = [], user_mailboxes = []\<rparr>"

definition sample_user :: user_row where
  "sample_user = \<lparr>u_id = ''u1'', u_email = ''a@x.com'',
                   u_password_hash = hashPassword demo_kdf (demo_env 1000) ''password123'',
                   u_is_admin = 1, u_created_at = 1000, u_updated_at = 1000\<rparr>"

definition sample_session :: session_row where
  "sample_session = \<lparr>s_id = ''tok'', s_user_id = ''u1'',
                      s_expires_at = 2592001000, s_created_at = 1000\<rparr>"

definition sample_auth :: auth_db where
  "sample_auth = \<lparr>users = [sample_user], sessions = [sample_session], user_mailboxes = []\<rparr>"

text \<open>
  An engine for the concrete instances: it reads the two clauses on the \<open>date\<close> column,
  a text column compared byte by byte, and rejects every other clause.
\<close>

definition sample_engine :: order_engine where
  "sample_engine clause rows =
     (if clause = ''date DESC'' then Inr (rev (sort_key e_date rows))
      else if clause = ''date ASC'' then Inr (sort_key e_date rows)
      else Inl (Error (''SQL error in ORDER BY: '' @ clause)))"

definition sample_email :: "string \<Rightarrow> string \<Rightarrow> string \<Rightarrow> email_row" where
  "sample_email i d f =
     \<lparr>e_id = i, e_subject = ''Email '' @ i, e_sender = ''sender@example.com'',
      e_recipient = ''recipient@example.com'', e_date = d, e_body = ''This is email '' @ i,
      e_read = 0, e_starred = 0, e_folder_id = f,
      e_in_reply_to = None, e_email_references = None, e_thread_id = Some i\<rparr>"

definition sample_attachment :: "string \<Rightarrow> string \<Rightarrow> string \<Rightarrow> attachment_row" where
  "sample_attachment i email name =
     \<lparr>a_id = i, a_email_id = email, a_filename = name, a_mimetype = ''text/plain'',
      a_size = 12, a_content_id = None, a_disposition = Some ''attachment''\<rparr>"

definition sample_mailbox :: mailbox_db where
  "sample_mailbox =
     \<lparr>folders = [\<lparr>f_id = ''inbox'', f_name = ''Inbox'', f_is_deletable = 0\<rparr>,
                 \<lparr>f_id = ''sent'', f_name = ''Sent'', f_is_deletable = 0\<rparr>,
                 \<lparr>f_id = ''archive'', f_name = ''Archive'', f_is_deletable = 1\<rparr>],
      emails = [sample_email ''m1'' ''2024-01-02'' ''inbox'',
                sample_email ''m2'' ''2024-01-01'' ''inbox'',
                sample_email ''m3'' ''2024-01-03'' ''sent''],
      attachments = [sample_attachment ''a1'' ''m1'' ''one.txt'',
                     sample_attachment ''a2'' ''m3'' ''two.txt'',
                     sample_attachment ''a3'' ''m1'' ''three.txt'']\<rparr>"


section \<open>Base64 and password hashing: lemmas\<close>

lemma index_of_nth:
  "distinct xs \<Longrightarrow> n < length xs \<Longrightarrow> index_of (xs ! n) xs = Some n"
proof (induction xs arbitrary: n)
  case Nil
  then show ?case by simp
next
  case (Cons x xs)
  show ?case
  proof (cases n)
    case 0
    then show ?thesis by simp
  next
    case (Suc m)
    with Cons.prems have "xs ! m \<in> set xs" "x \<notin> set xs" by auto
    then have "xs ! m \<noteq> x" by auto
    with Suc Cons show ?thesis by auto
  qed
qed

lemma b64_alphabet_distinct: "distinct b64_alphabet"
  by (simp add: b64_alphabet_def)

lemma b64_alphabet_length: "length b64_alphabet = 64"
  by (simp add: b64_alphabet_def)

lemma b64_index_char: "n < 64 \<Longrightarrow> b64_index (b64_char n) = Some n"
  by (simp add: b64_index_def b64_char_def index_of_nth b64_alphabet_distinct b64_alphabet_length)

lemma b64_char_in_alphabet: "n < 64 \<Longrightarrow> b64_char n \<in> set b64_alphabet"
  by (simp add: b64_char_def b64_alphabet_length)

lemma b64_alphabet_plain:
  "c \<in> set b64_alphabet \<Longrightarrow> \<not> is_ascii_whitespace c \<and> c \<noteq> CHR ''='' \<and> c \<noteq> CHR '':''"
  by (auto simp: b64_alphabet_def is_ascii_whitespace_def)

lemma sextets_lt: "\<forall>x\<in>set xs. x < 256 \<Longrightarrow> \<forall>s\<in>set (sextets xs). s < 64"
  by (induction xs rule: sextets.induct) auto

lemma octets_sextets: "\<forall>x\<in>set xs. x < 256 \<Longrightarrow> octets (sextets xs) = xs"
  by (induction xs rule: sextets.induct) auto

lemma length_sextets:
  "length (sextets xs) mod 4 = (if length xs mod 3 = 0 then 0 else length xs mod 3 + 1)"
  by (induction xs rule: sextets.induct) (auto simp: mod_Suc)

lemma index_all_map: "\<forall>s\<in>set ss. s < 64 \<Longrightarrow> index_all (map b64_char ss) = Some ss"
  by (induction ss) (auto simp: b64_index_char)

lemma strip_eq_body:
  "\<forall>c\<in>set b. c \<noteq> CHR ''='' \<Longrightarrow> k \<le> 2 \<Longrightarrow>
   strip_eq (strip_eq (b @ replicate k (CHR ''=''))) = b"
proof -
  assume b: "\<forall>c\<in>set b. c \<noteq> CHR ''=''" and k: "k \<le> 2"
  have s0: "strip_eq b = b"
    using b by (cases b rule: rev_cases) (auto simp: strip_eq_def)
  have s1: "strip_eq (b @ [CHR ''='']) = b"
    by (simp add: strip_eq_def)
  have s2: "strip_eq (b @ [CHR ''='', CHR ''='']) = b @ [CHR ''='']"
    by (simp add: strip_eq_def butlast_append)
  from k consider "k = 0" | "k = 1" | "k = 2" by linarith
  then show ?thesis
  proof cases
    case 1 then show ?thesis by (simp add: s0)
  next
    case 2 then show ?thesis by (simp add: s0 s1)
  next
    case 3 then show ?thesis by (simp add: numeral_2_eq_2 s1 s2 del: replicate_Suc) (simp add: s2 s1)
  qed
qed

lemma body_plain:
  assumes "\<forall>x\<in>set xs. x < 256"
  shows "\<forall>c\<in>set (map b64_char (sextets xs)).
           \<not> is_ascii_whitespace c \<and> c \<noteq> CHR ''='' \<and> c \<noteq> CHR '':''"
  using sextets_lt [OF assms] b64_alphabet_plain b64_char_in_alphabet by auto

lemma atob_btoa: "atob (btoa s) = Some s"
proof -
  let ?xs = "map of_char s :: nat list"
  let ?body = "map b64_char (sextets ?xs)"
  let ?k = "(3 - length s mod 3) mod 3"
  have lt: "\<forall>x\<in>set ?xs. x < 256" by simp
  have plain: "\<forall>c\<in>set ?body. \<not> is_ascii_whitespace c \<and> c \<noteq> CHR ''='' \<and> c \<noteq> CHR '':''"
    by (rule body_plain [OF lt])
  have eq_ws: "\<not> is_ascii_whitespace (CHR ''='')"
    by (simp add: is_ascii_whitespace_def)
  have filt: "filter (\<lambda>c. \<not> is_ascii_whitespace c) (btoa s) = btoa s"
    using plain eq_ws by (auto simp: btoa_def b64_padding_def filter_id_conv)
  have len_body: "length ?body mod 4 = (if length s mod 3 = 0 then 0 else length s mod 3 + 1)"
    using length_sextets [of ?xs] by simp
  have k2: "?k \<le> 2" by arith
  have len4: "length (btoa s) mod 4 = 0"
  proof -
    have "length (btoa s) = length ?body + ?k" by (simp add: btoa_def b64_padding_def)
    moreover have "(length ?body + ?k) mod 4 = (length ?body mod 4 + ?k) mod 4"
      by (simp add: mod_add_left_eq)
    moreover have "(length ?body mod 4 + ?k) mod 4 = 0"
      unfolding len_body by (cases "length s mod 3 = 0"; cases "length s mod 3 = 1") auto
    ultimately show ?thesis by simp
  qed
  have strip: "strip_eq (strip_eq (btoa s)) = ?body"
    unfolding btoa_def b64_padding_def using plain k2 by (intro strip_eq_body) auto
  have not1: "length ?body mod 4 \<noteq> 1"
    unfolding len_body by auto
  have idx: "index_all ?body = Some (sextets ?xs)"
    by (rule index_all_map [OF sextets_lt [OF lt]])
  have oct: "octets (sextets ?xs) = ?xs"
    by (rule octets_sextets [OF lt])
  have chars: "map char_of ?xs = s"
    by (simp add: map_idI)
  show ?thesis
    unfolding atob_def Let_def filt
    using len4 strip not1 idx oct chars by simp
qed

lemma js_split_no_sep: "sep \<notin> set b \<Longrightarrow> js_split sep b = [b]"
  by (induction b) auto

lemma js_split_append: "sep \<notin> set a \<Longrightarrow> js_split sep (a @ sep # b) = a # js_split sep b"
  by (induction a) auto

lemma btoa_no_colon: "CHR '':'' \<notin> set (btoa s)"
proof -
  have "\<forall>x\<in>set (map of_char s :: nat list). x < 256" by simp
  from body_plain [OF this] show ?thesis
    by (auto simp: btoa_def b64_padding_def)
qed

lemma btoa_nonempty: "s \<noteq> [] \<Longrightarrow> btoa s \<noteq> []"
  by (cases "map of_char s :: nat list" rule: sextets.cases) (auto simp: btoa_def)

lemma byte_char_roundtrip: "word_of_nat (of_char (char_of (unat (b :: byte)))) = b"
proof -
  have "unat b < 256" using unsigned_less [of b, where ?'a = nat] by simp
  then have "unat b mod 256 = unat b" by simp
  then show ?thesis by simp
qed

lemma charCodes_fromCharCode: "charCodes (fromCharCode bs) = bs"
  by (simp add: charCodes_def fromCharCode_def o_def byte_char_roundtrip del: of_char_of)

lemma length_getRandomValues: "length (getRandomValues e n) = n"
  by (simp add: getRandomValues_def)

lemma length_deriveBits: "length (deriveBits kdf params key len) = len div 8"
  by (simp add: deriveBits_def)

lemma verify_stored:
  assumes "salt_v \<noteq> []" and "bits \<noteq> []"
  shows "verifyPassword kdf password (btoa (fromCharCode salt_v) @ '':'' @ btoa (fromCharCode bits))
         = Inr (btoa (fromCharCode (deriveBits kdf \<lparr>salt = salt_v, iterations = 100000, hash = SHA_256\<rparr>
                   (encode password) 256)) = btoa (fromCharCode bits))"
proof -
  let ?a = "btoa (fromCharCode salt_v)" and ?b = "btoa (fromCharCode bits)"
  have split: "js_split (CHR '':'') (?a @ '':'' @ ?b) = [?a, ?b]"
    using js_split_append [of "CHR '':''" ?a ?b] js_split_no_sep [of "CHR '':''" ?b]
    by (simp add: btoa_no_colon)
  have ne: "?a \<noteq> []" "?b \<noteq> []"
    using assms by (simp_all add: btoa_nonempty fromCharCode_def)
  show ?thesis
    unfolding verifyPassword_def split
    using ne by (simp add: atob_btoa charCodes_fromCharCode)
qed

lemma verify_hash: "verifyPassword kdf password (hashPassword kdf e password) = Inr True"
proof -
  have s: "getRandomValues e 16 \<noteq> []"
    using length_getRandomValues [of e 16] by auto
  have b: "deriveBits kdf \<lparr>salt = getRandomValues e 16, iterations = 100000, hash = SHA_256\<rparr>
             (encode password) 256 \<noteq> []"
    using length_deriveBits [of kdf "\<lparr>salt = getRandomValues e 16, iterations = 100000, hash = SHA_256\<rparr>" "encode password" 256] by auto
  show ?thesis
    unfolding hashPassword_def Let_def using verify_stored [OF s b, of kdf password] by simp
qed

lemma find_append_last:
  "\<forall>x\<in>set xs. \<not> P x \<Longrightarrow> P r \<Longrightarrow> find P (xs @ [r]) = Some r"
  by (induction xs) auto

lemma register_then_login:
  assumes "register kdf e email password isFirstUser st = Inr (u, st')"
  shows "\<exists>sess st''. login kdf e' email password st' = Inr (Some sess, st'')
           \<and> session_email sess = email \<and> session_userId sess = user_id u"
proof (cases st)
  case (MailboxStore m)
  with assms show ?thesis by (simp add: register_def)
next
  case (AuthStore db)
  let ?r = "\<lparr>u_id = randomUUID e 0, u_email = email,
              u_password_hash = hashPassword kdf e password,
              u_is_admin = (if isFirstUser then 1 else 0),
              u_created_at = now e, u_updated_at = now e\<rparr>"
  from assms AuthStore have fresh: "email \<notin> set (map u_email (users db))"
    and st': "st' = AuthStore (db\<lparr>users := users db @ [?r]\<rparr>)"
    and u: "user_id u = randomUUID e 0"
    by (auto simp: register_def insert_user_def Let_def split: if_splits)
  have "find (\<lambda>x. u_email x = email) (users db @ [?r]) = Some ?r"
    using fresh by (intro find_append_last) auto
  then show ?thesis
    unfolding st' login_def
    by (simp add: sql_one_def verify_hash insert_session_def Let_def u)
qed

lemma btoa_inject: "btoa a = btoa b \<longleftrightarrow> a = b"
proof
  assume "btoa a = btoa b"
  then have "atob (btoa a) = atob (btoa b)" by (rule arg_cong)
  then show "a = b" by (simp only: atob_btoa option.inject)
qed simp

lemma fromCharCode_inject: "fromCharCode a = fromCharCode b \<longleftrightarrow> a = b"
proof
  assume "fromCharCode a = fromCharCode b"
  then have "charCodes (fromCharCode a) = charCodes (fromCharCode b)" by (rule arg_cong)
  then show "a = b" by (simp only: charCodes_fromCharCode)
qed simp

section \<open>Credential operations: lemmas\<close>

lemma find_filter_neg: "find P (filter (\<lambda>r. \<not> P r) rows) = None"
  by (induction rows) auto

lemma verify_hashed_returns:
  "\<exists>b. verifyPassword kdf candidate (hashPassword kdf e0 p0) = Inr b"
proof -
  have s: "getRandomValues e0 16 \<noteq> []"
    using length_getRandomValues [of e0 16] by auto
  have b: "deriveBits kdf \<lparr>salt = getRandomValues e0 16, iterations = 100000, hash = SHA_256\<rparr>
             (encode p0) 256 \<noteq> []"
    using length_deriveBits [of kdf "\<lparr>salt = getRandomValues e0 16, iterations = 100000, hash = SHA_256\<rparr>" "encode p0" 256] by auto
  show ?thesis
    unfolding hashPassword_def Let_def using verify_stored [OF s b, of kdf candidate] by simp
qed

lemma find_Some_set: "find P xs = Some x \<Longrightarrow> x \<in> set xs \<and> P x"
  by (induction xs) (auto split: if_splits)

lemma demo_wrong_password:
  "verifyPassword demo_kdf ''wrong'' (hashPassword demo_kdf e0 ''password123'') = Inr False"
proof -
  let ?p = "\<lparr>salt = getRandomValues e0 16, iterations = 100000, hash = SHA_256\<rparr>"
  have s: "getRandomValues e0 16 \<noteq> []"
    using length_getRandomValues [of e0 16] by auto
  have b: "deriveBits demo_kdf ?p (encode ''password123'') 256 \<noteq> []"
    using length_deriveBits [of demo_kdf ?p "encode ''password123''" 256] by auto
  have "demo_kdf ?p (encode ''wrong'') 0 \<noteq> demo_kdf ?p (encode ''password123'') 0"
    by (simp add: demo_kdf_def encode_def charCodes_def)
  then have ne: "deriveBits demo_kdf ?p (encode ''wrong'') 256
                 \<noteq> deriveBits demo_kdf ?p (encode ''password123'') 256"
    unfolding deriveBits_def by (auto simp: map_eq_conv)
  show ?thesis
    unfolding hashPassword_def Let_def
    using verify_stored [OF s b, of demo_kdf "''wrong''"] ne
    by (simp add: btoa_inject fromCharCode_inject)
qed

lemma insert_user_keeps:
  "insert_user r rows = Inr rows' \<Longrightarrow>
     rows' = rows @ [r] \<and> u_email r \<notin> set (map u_email rows) \<and> u_id r \<notin> set (map u_id rows)"
  by (auto simp: insert_user_def split: if_splits)

lemma seed_admins_nonempty:
  "rows \<noteq> [] \<or> as \<noteq> [] \<Longrightarrow> seed_admins e ph i as rows \<noteq> []"
proof (induction as arbitrary: rows i)
  case Nil
  then show ?case by simp
next
  case (Cons a as)
  show ?case
  proof (cases "insert_user \<lparr>u_id = randomUUID e i, u_email = a, u_password_hash = ph,
                   u_is_admin = 1, u_created_at = now e, u_updated_at = now e\<rparr> rows")
    case (Inl err)
    then have "rows \<noteq> []" by (auto simp: insert_user_def split: if_splits)
    with Inl Cons.IH [of rows "Suc i"] show ?thesis by simp
  next
    case (Inr rows')
    then have "rows' \<noteq> []" by (auto dest: insert_user_keeps)
    with Inr Cons.IH [of rows' "Suc i"] show ?thesis by simp
  qed
qed

lemma seed_admins_distinct:
  "distinct (map u_email rows) \<Longrightarrow> distinct (map u_id rows) \<Longrightarrow>
   distinct (map u_email (seed_admins e ph i as rows)) \<and>
   distinct (map u_id (seed_admins e ph i as rows))"
proof (induction as arbitrary: rows i)
  case Nil
  then show ?case by simp
next
  case (Cons a as)
  show ?case
  proof (cases "insert_user \<lparr>u_id = randomUUID e i, u_email = a, u_password_hash = ph,
                   u_is_admin = 1, u_created_at = now e, u_updated_at = now e\<rparr> rows")
    case (Inl err)
    with Cons show ?thesis by simp
  next
    case (Inr rows')
    from insert_user_keeps [OF Inr] Cons.prems
    have "distinct (map u_email rows')" "distinct (map u_id rows')" by auto
    with Inr Cons.IH [of rows' "Suc i"] show ?thesis by simp
  qed
qed

lemma seed_admins_present:
  "set as \<subseteq> set (map u_email rows) \<Longrightarrow> seed_admins e ph i as rows = rows"
proof (induction as arbitrary: i)
  case Nil
  then show ?case by simp
next
  case (Cons a as)
  then have "a \<in> set (map u_email rows)" by simp
  then have "\<exists>err. insert_user \<lparr>u_id = randomUUID e i, u_email = a, u_password_hash = ph,
                   u_is_admin = 1, u_created_at = now e, u_updated_at = now e\<rparr> rows = Inl err"
    by (simp add: insert_user_def)
  with Cons show ?case by auto
qed

lemma seed_admins_hashed:
  "\<forall>u\<in>set rows. \<exists>e0 p0. u_password_hash u = hashPassword kdf e0 p0 \<Longrightarrow>
   \<forall>u\<in>set (seed_admins e (hashPassword kdf e ''admin'') i as rows).
      \<exists>e0 p0. u_password_hash u = hashPassword kdf e0 p0"
proof (induction as arbitrary: rows i)
  case Nil
  then show ?case by simp
next
  case (Cons a as)
  let ?r = "\<lparr>u_id = randomUUID e i, u_email = a, u_password_hash = hashPassword kdf e ''admin'',
             u_is_admin = 1, u_created_at = now e, u_updated_at = now e\<rparr>"
  show ?case
  proof (cases "insert_user ?r rows")
    case (Inl err)
    with Cons show ?thesis by simp
  next
    case (Inr rows')
    then have "rows' = rows @ [?r]" by (auto dest: insert_user_keeps)
    with Cons.prems have "\<forall>u\<in>set rows'. \<exists>e0 p0. u_password_hash u = hashPassword kdf e0 p0"
      by auto
    from Cons.IH [OF this, of "Suc i"] Inr show ?thesis by simp
  qed
qed

lemma stored_hashes_preserved:
  assumes "\<forall>u\<in>set (users db). \<exists>e0 p0. u_password_hash u = hashPassword kdf e0 p0"
  shows "register kdf e email password isFirstUser (AuthStore db) = Inr (user, AuthStore db') \<Longrightarrow>
           \<forall>u\<in>set (users db'). \<exists>e0 p0. u_password_hash u = hashPassword kdf e0 p0"
    and "updateUserPassword kdf e userId newPassword (AuthStore db) = Inr (AuthStore db') \<Longrightarrow>
           \<forall>u\<in>set (users db'). \<exists>e0 p0. u_password_hash u = hashPassword kdf e0 p0"
    and "ensureDefaultAdmins kdf e (AuthStore db) = Inr (AuthStore db') \<Longrightarrow>
           \<forall>u\<in>set (users db'). \<exists>e0 p0. u_password_hash u = hashPassword kdf e0 p0"
proof -
  assume "register kdf e email password isFirstUser (AuthStore db) = Inr (user, AuthStore db')"
  then have "\<exists>r. users db' = users db @ [r] \<and> u_password_hash r = hashPassword kdf e password"
    by (auto simp: register_def insert_user_def Let_def split: if_splits)
  then obtain r where r: "users db' = users db @ [r]"
    "u_password_hash r = hashPassword kdf e password" by blast
  from r(2) have "\<exists>e0 p0. u_password_hash r = hashPassword kdf e0 p0" by blast
  with assms r(1) show "\<forall>u\<in>set (users db'). \<exists>e0 p0. u_password_hash u = hashPassword kdf e0 p0"
    by simp
next
  assume "updateUserPassword kdf e userId newPassword (AuthStore db) = Inr (AuthStore db')"
  then have u: "users db' = map (\<lambda>u. if u_id u = userId
                  then u\<lparr>u_password_hash := hashPassword kdf e newPassword, u_updated_at := now e\<rparr>
                  else u) (users db)"
    by (auto simp: updateUserPassword_def sql_update_def Let_def)
  show "\<forall>u\<in>set (users db'). \<exists>e0 p0. u_password_hash u = hashPassword kdf e0 p0"
  proof
    fix u assume "u \<in> set (users db')"
    with u obtain u0 where u0: "u0 \<in> set (users db)"
      and eq: "u = (if u_id u0 = userId
                  then u0\<lparr>u_password_hash := hashPassword kdf e newPassword, u_updated_at := now e\<rparr>
                  else u0)"
      by (simp only: set_map) (erule imageE)
    show "\<exists>e0 p0. u_password_hash u = hashPassword kdf e0 p0"
    proof (cases "u_id u0 = userId")
      case True
      with eq have "u_password_hash u = hashPassword kdf e newPassword" by simp
      then show ?thesis by blast
    next
      case False
      with eq u0 assms show ?thesis by simp
    qed
  qed
next
  assume a: "ensureDefaultAdmins kdf e (AuthStore db) = Inr (AuthStore db')"
  show "\<forall>u\<in>set (users db'). \<exists>e0 p0. u_password_hash u = hashPassword kdf e0 p0"
  proof (cases "users db = []")
    case False
    with a have "db' = db" by (simp add: ensureDefaultAdmins_def)
    with assms show ?thesis by simp
  next
    case True
    with a have "users db' = seed_admins e (hashPassword kdf e ''admin'') 0 admins (users db)"
      by (auto simp: ensureDefaultAdmins_def Let_def)
    with seed_admins_hashed [OF assms, of e 0 admins] show ?thesis by simp
  qed
qed

lemma demo_login_ok:
  "login demo_kdf (demo_env 2000) ''a@x.com'' ''password123'' (AuthStore sample_auth)
     = Inr (Some \<lparr>session_id = ''uuid-'', session_userId = ''u1'', session_email = ''a@x.com'',
                  session_isAdmin = True, session_expiresAt = 2592002000\<rparr>,
            AuthStore (sample_auth\<lparr>sessions := [sample_session,
               \<lparr>s_id = ''uuid-'', s_user_id = ''u1'', s_expires_at = 2592002000,
                s_created_at = 2000\<rparr>]\<rparr>))"
  by (simp add: login_def sql_one_def sample_auth_def sample_user_def verify_hash
        insert_session_def generateToken_def demo_env_def Let_def)

section \<open>Mailbox operations: lemmas\<close>

lemma unique_message_id: "str_includes ''UNIQUE constraint failed: folders.id'' ''UNIQUE constraint failed''"
  by simp

lemma unique_message_name: "str_includes ''UNIQUE constraint failed: folders.name'' ''UNIQUE constraint failed''"
  by simp

lemma createFolder_collides:
  "i \<in> set (map f_id (folders db)) \<or> name \<in> set (map f_name (folders db)) \<Longrightarrow>
   createFolder i name (MailboxStore db) = Inr (None, MailboxStore db)"
  by (auto simp: createFolder_def createFolder_try_def insert_folder_def
        unique_message_id unique_message_name)

lemma createFolder_fresh:
  "i \<notin> set (map f_id (folders db)) \<Longrightarrow> name \<notin> set (map f_name (folders db)) \<Longrightarrow>
   createFolder i name (MailboxStore db)
     = Inr (Some \<lparr>folder_id = i, folder_name = name, unreadCount = 0\<rparr>,
            MailboxStore (db\<lparr>folders := folders db @ [\<lparr>f_id = i, f_name = name, f_is_deletable = 1\<rparr>]\<rparr>))"
  by (simp add: createFolder_def createFolder_try_def insert_folder_def)

lemma orders_obtain:
  assumes "orders engine clause"
  obtains ordered where "engine clause rows = Inr ordered" and "mset ordered = mset rows"
  using assms unfolding orders_def by blast

lemma sample_engine_orders: "orders sample_engine ''date DESC''"
  by (simp add: orders_def sample_engine_def)




lemma folder_subquery_name_first:
  "folder_subquery ''g'' [\<lparr>f_id = ''g'', f_name = ''G'', f_is_deletable = 1\<rparr>,
                          \<lparr>f_id = ''a'', f_name = ''g'', f_is_deletable = 1\<rparr>] = Some ''a''"
  by (simp add: folder_subquery_def sql_one_def)







section \<open>The claims\<close>

text \<open>
  Claim C1, as stated, fails at \<open>now = expiresAt\<close>: \<open>validateSession\<close> tests
  \<open>expiresAt < Date.now()\<close>, so the session is still returned at that instant, although
  \<open>now < expiresAt\<close> no longer holds. The instance below is the sample store at the
  millisecond its session expires.
\<close>

theorem validateSession_boundary_counterexample:
  "validateSession (demo_env 2592001000) ''tok'' (AuthStore sample_auth)
     = Inr (Some \<lparr>session_id = ''tok'', session_userId = ''u1'', session_email = ''a@x.com'',
                  session_isAdmin = True, session_expiresAt = 2592001000\<rparr>,
            AuthStore sample_auth)
   \<and> \<not> (now (demo_env 2592001000) < 2592001000)"
  by (simp add: validateSession_def sample_auth_def sample_session_def sample_user_def
        sql_one_def demo_env_def)

text \<open>
  Claim C1, as amended: for a stored session whose owning user exists,
  \<open>validateSession\<close> returns a session (and leaves the store as it is) exactly while
  \<open>now \<le> expiresAt\<close>. Once \<open>expiresAt < now\<close> it returns null and deletes the session
  row; after that no row has the token, and validating the token returns null at
  every time.
\<close>

theorem validateSession_expiry:
  assumes "sql_one (\<lambda>s. s_id s = token) (sessions db) = Some session"
      and "sql_one (\<lambda>u. u_id u = s_user_id session) (users db) = Some user"
  shows "((\<exists>S. validateSession e token (AuthStore db) = Inr (Some S, AuthStore db))
            \<longleftrightarrow> now e \<le> s_expires_at session)
       \<and> (s_expires_at session < now e \<longrightarrow>
            validateSession e token (AuthStore db)
              = Inr (None, AuthStore (db\<lparr>sessions := sql_delete (\<lambda>s. s_id s = token) (sessions db)\<rparr>))
            \<and> token \<notin> set (map s_id (sql_delete (\<lambda>s. s_id s = token) (sessions db)))
            \<and> (\<forall>e'. validateSession e' token
                       (AuthStore (db\<lparr>sessions := sql_delete (\<lambda>s. s_id s = token) (sessions db)\<rparr>))
                  = Inr (None, AuthStore (db\<lparr>sessions := sql_delete (\<lambda>s. s_id s = token) (sessions db)\<rparr>))))"
proof (intro conjI impI)
  show "(\<exists>S. validateSession e token (AuthStore db) = Inr (Some S, AuthStore db))
            \<longleftrightarrow> now e \<le> s_expires_at session"
    using assms by (auto simp: validateSession_def Let_def)
next
  assume ex: "s_expires_at session < now e"
  then show "validateSession e token (AuthStore db)
              = Inr (None, AuthStore (db\<lparr>sessions := sql_delete (\<lambda>s. s_id s = token) (sessions db)\<rparr>))"
    using assms by (simp add: validateSession_def Let_def)
  show "token \<notin> set (map s_id (sql_delete (\<lambda>s. s_id s = token) (sessions db)))"
    by (auto simp: sql_delete_def)
  show "\<forall>e'. validateSession e' token
                       (AuthStore (db\<lparr>sessions := sql_delete (\<lambda>s. s_id s = token) (sessions db)\<rparr>))
                  = Inr (None, AuthStore (db\<lparr>sessions := sql_delete (\<lambda>s. s_id s = token) (sessions db)\<rparr>))"
    by (simp add: validateSession_def sql_one_def sql_delete_def find_filter_neg)
qed

theorem validateSession_expiry_witness:
  "sql_one (\<lambda>s. s_id s = ''tok'') (sessions sample_auth) = Some sample_session
   \<and> sql_one (\<lambda>u. u_id u = s_user_id sample_session) (users sample_auth) = Some sample_user
   \<and> s_expires_at sample_session < now (demo_env 2592001001)
   \<and> validateSession (demo_env 2592001001) ''tok'' (AuthStore sample_auth)
        = Inr (None, AuthStore (sample_auth\<lparr>sessions := []\<rparr>))
   \<and> validateSession (demo_env 2592001000) ''tok'' (AuthStore (sample_auth\<lparr>sessions := []\<rparr>))
        = Inr (None, AuthStore (sample_auth\<lparr>sessions := []\<rparr>))"
proof -
  have a: "sql_one (\<lambda>s. s_id s = ''tok'') (sessions sample_auth) = Some sample_session"
    by (simp add: sql_one_def sample_auth_def sample_session_def)
  have b: "sql_one (\<lambda>u. u_id u = s_user_id sample_session) (users sample_auth) = Some sample_user"
    by (simp add: sql_one_def sample_auth_def sample_session_def sample_user_def)
  have c: "s_expires_at sample_session < now (demo_env 2592001001)"
    by (simp add: sample_session_def demo_env_def)
  have d: "sql_delete (\<lambda>s. s_id s = ''tok'') (sessions sample_auth) = []"
    by (simp add: sql_delete_def sample_auth_def sample_session_def)
  from validateSession_expiry [OF a b, of "demo_env 2592001001"] c
  show ?thesis using a b by (simp add: d)
qed

text \<open>
  Claim C2. On the AUTH store, with every stored hash written by \<open>hashPassword\<close> (the
  only writer of the column: \<open>register\<close>, \<open>updateUserPassword\<close> and
  \<open>ensureDefaultAdmins\<close> keep it so, lemma \<open>stored_hashes_preserved\<close>), \<open>login\<close> never
  raises. When no user has the email, and when the user is found and the password does
  not verify, it returns the same value: null, with the store unchanged. A returned
  session expires exactly \<open>30 * 24 * 60 * 60 * 1000\<close> ms after \<open>now\<close>, the creation time
  written to its row.
\<close>

theorem login_mismatch_null:
  assumes hashed: "\<forall>u\<in>set (users db). \<exists>e0 p0. u_password_hash u = hashPassword kdf e0 p0"
  shows "(\<exists>r. login kdf e email password (AuthStore db) = Inr r)
       \<and> (sql_one (\<lambda>u. u_email u = email) (users db) = None \<longrightarrow>
            login kdf e email password (AuthStore db) = Inr (None, AuthStore db))
       \<and> (\<forall>user. sql_one (\<lambda>u. u_email u = email) (users db) = Some user
              \<and> verifyPassword kdf password (u_password_hash user) = Inr False \<longrightarrow>
            login kdf e email password (AuthStore db) = Inr (None, AuthStore db))
       \<and> (\<forall>session st'. login kdf e email password (AuthStore db) = Inr (Some session, st') \<longrightarrow>
            session_expiresAt session = now e + 30 * 24 * 60 * 60 * 1000
            \<and> st' = AuthStore (db\<lparr>sessions := sessions db @
                       [\<lparr>s_id = session_id session, s_user_id = session_userId session,
                         s_expires_at = now e + 2592000000, s_created_at = now e\<rparr>]\<rparr>))"
proof (intro conjI impI allI)
  show "\<exists>r. login kdf e email password (AuthStore db) = Inr r"
  proof (cases "sql_one (\<lambda>u. u_email u = email) (users db)")
    case None
    then show ?thesis by (simp add: login_def)
  next
    case (Some user)
    then have "user \<in> set (users db)" by (auto simp: sql_one_def dest: find_Some_set)
    with hashed obtain e0 p0 where "u_password_hash user = hashPassword kdf e0 p0" by blast
    with verify_hashed_returns [of kdf password e0 p0]
    obtain b where "verifyPassword kdf password (u_password_hash user) = Inr b" by auto
    with Some show ?thesis
      by (cases b) (simp_all add: login_def insert_session_def Let_def)
  qed
next
  assume "sql_one (\<lambda>u. u_email u = email) (users db) = None"
  then show "login kdf e email password (AuthStore db) = Inr (None, AuthStore db)"
    by (simp add: login_def)
next
  fix user
  assume "sql_one (\<lambda>u. u_email u = email) (users db) = Some user
              \<and> verifyPassword kdf password (u_password_hash user) = Inr False"
  then show "login kdf e email password (AuthStore db) = Inr (None, AuthStore db)"
    by (simp add: login_def)
next
  fix session st'
  assume l: "login kdf e email password (AuthStore db) = Inr (Some session, st')"
  then show "session_expiresAt session = now e + 30 * 24 * 60 * 60 * 1000"
    by (auto simp: login_def insert_session_def Let_def split: option.splits sum.splits if_splits)
  from l show "st' = AuthStore (db\<lparr>sessions := sessions db @
                       [\<lparr>s_id = session_id session, s_user_id = session_userId session,
                         s_expires_at = now e + 2592000000, s_created_at = now e\<rparr>]\<rparr>)"
    by (auto simp: login_def insert_session_def Let_def split: option.splits sum.splits if_splits)
qed

theorem login_mismatch_null_witness:
  "users sample_auth = [sample_user]
   \<and> (\<exists>e0 p0. u_password_hash sample_user = hashPassword demo_kdf e0 p0)
   \<and> sql_one (\<lambda>u. u_email u = ''nobody@x.com'') (users sample_auth) = None
   \<and> login demo_kdf (demo_env 2000) ''nobody@x.com'' ''password123'' (AuthStore sample_auth)
       = Inr (None, AuthStore sample_auth)
   \<and> sql_one (\<lambda>u. u_email u = ''a@x.com'') (users sample_auth) = Some sample_user
   \<and> verifyPassword demo_kdf ''wrong'' (u_password_hash sample_user) = Inr False
   \<and> login demo_kdf (demo_env 2000) ''a@x.com'' ''wrong'' (AuthStore sample_auth)
       = Inr (None, AuthStore sample_auth)
   \<and> login demo_kdf (demo_env 2000) ''a@x.com'' ''password123'' (AuthStore sample_auth)
       = Inr (Some \<lparr>session_id = ''uuid-'', session_userId = ''u1'', session_email = ''a@x.com'',
                    session_isAdmin = True, session_expiresAt = 2592002000\<rparr>,
              AuthStore (sample_auth\<lparr>sessions := [sample_session,
                 \<lparr>s_id = ''uuid-'', s_user_id = ''u1'', s_expires_at = 2592002000,
                  s_created_at = 2000\<rparr>]\<rparr>))"
proof -
  have u: "users sample_auth = [sample_user]" by (simp add: sample_auth_def)
  have h: "\<exists>e0 p0. u_password_hash sample_user = hashPassword demo_kdf e0 p0"
    unfolding sample_user_def by auto
  have hashed: "\<forall>u\<in>set (users sample_auth). \<exists>e0 p0. u_password_hash u = hashPassword demo_kdf e0 p0"
    using u h by simp
  have n: "sql_one (\<lambda>u. u_email u = ''nobody@x.com'') (users sample_auth) = None"
    by (simp add: sql_one_def sample_auth_def sample_user_def)
  have f: "sql_one (\<lambda>u. u_email u = ''a@x.com'') (users sample_auth) = Some sample_user"
    by (simp add: sql_one_def sample_auth_def sample_user_def)
  have w: "verifyPassword demo_kdf ''wrong'' (u_password_hash sample_user) = Inr False"
    using demo_wrong_password [of "demo_env 1000"] by (simp add: sample_user_def)
  from login_mismatch_null [OF hashed, of "demo_env 2000" "''nobody@x.com''" "''password123''"] n
  have 1: "login demo_kdf (demo_env 2000) ''nobody@x.com'' ''password123'' (AuthStore sample_auth)
       = Inr (None, AuthStore sample_auth)" by blast
  from login_mismatch_null [OF hashed, of "demo_env 2000" "''a@x.com''" "''wrong''"] f w
  have 2: "login demo_kdf (demo_env 2000) ''a@x.com'' ''wrong'' (AuthStore sample_auth)
       = Inr (None, AuthStore sample_auth)" by blast
  show ?thesis using u h n f w 1 2 demo_login_ok by blast
qed

text \<open>
  Claim C3. Verifying a password against the hash stored for it succeeds. The stored
  hash is \<open>base64(salt) + ":" + base64(derivedBits)\<close> with 16 random salt bytes and
  PBKDF2, SHA-256, 100000 iterations; against a stored hash of that shape,
  verification derives again with the stored salt and answers whether the derived
  bytes are equal to the stored ones. Hence a login that follows a successful
  registration with the same email and password returns a session.
\<close>

theorem hashPassword_verifyPassword_roundtrip:
  "verifyPassword kdf password (hashPassword kdf e password) = Inr True
   \<and> hashPassword kdf e password =
         btoa (fromCharCode (getRandomValues e 16)) @ '':'' @
         btoa (fromCharCode (deriveBits kdf
           \<lparr>salt = getRandomValues e 16, iterations = 100000, hash = SHA_256\<rparr>
           (encode password) 256))
   \<and> length (getRandomValues e 16) = 16
   \<and> verifyPassword kdf candidate
         (btoa (fromCharCode (s0 # ss)) @ '':'' @ btoa (fromCharCode (b0 # bs)))
       = Inr (deriveBits kdf \<lparr>salt = s0 # ss, iterations = 100000, hash = SHA_256\<rparr>
                (encode candidate) 256 = b0 # bs)
   \<and> (register kdf e email password isFirstUser st = Inr (u, st') \<longrightarrow>
        (\<exists>sess st''. login kdf e' email password st' = Inr (Some sess, st'')
           \<and> session_email sess = email \<and> session_userId sess = user_id u))"
proof (intro conjI impI)
  show "verifyPassword kdf password (hashPassword kdf e password) = Inr True"
    by (rule verify_hash)
  show "hashPassword kdf e password =
         btoa (fromCharCode (getRandomValues e 16)) @ '':'' @
         btoa (fromCharCode (deriveBits kdf
           \<lparr>salt = getRandomValues e 16, iterations = 100000, hash = SHA_256\<rparr>
           (encode password) 256))"
    by (simp add: hashPassword_def Let_def)
  show "length (getRandomValues e 16) = 16"
    by (rule length_getRandomValues)
  show "verifyPassword kdf candidate
         (btoa (fromCharCode (s0 # ss)) @ '':'' @ btoa (fromCharCode (b0 # bs)))
       = Inr (deriveBits kdf \<lparr>salt = s0 # ss, iterations = 100000, hash = SHA_256\<rparr>
                (encode candidate) 256 = b0 # bs)"
    using verify_stored [of "s0 # ss" "b0 # bs" kdf candidate]
    by (simp add: btoa_inject fromCharCode_inject)
next
  assume "register kdf e email password isFirstUser st = Inr (u, st')"
  then show "\<exists>sess st''. login kdf e' email password st' = Inr (Some sess, st'')
           \<and> session_email sess = email \<and> session_userId sess = user_id u"
    by (rule register_then_login)
qed

theorem hashPassword_verifyPassword_roundtrip_witness:
  "register demo_kdf (demo_env 1000) ''a@x.com'' ''password123'' True (AuthStore empty_auth)
     = Inr (\<lparr>user_id = ''uuid-'', user_email = ''a@x.com'', user_isAdmin = True,
              user_createdAt = 1000, user_updatedAt = 1000\<rparr>,
            AuthStore \<lparr>users = [\<lparr>u_id = ''uuid-'', u_email = ''a@x.com'',
                          u_password_hash = hashPassword demo_kdf (demo_env 1000) ''password123'',
                          u_is_admin = 1, u_created_at = 1000, u_updated_at = 1000\<rparr>],
                       sessions = [], user_mailboxes = []\<rparr>)
   \<and> (\<exists>sess st''.
         login demo_kdf (demo_env 2000) ''a@x.com'' ''password123''
           (AuthStore \<lparr>users = [\<lparr>u_id = ''uuid-'', u_email = ''a@x.com'',
                          u_password_hash = hashPassword demo_kdf (demo_env 1000) ''password123'',
                          u_is_admin = 1, u_created_at = 1000, u_updated_at = 1000\<rparr>],
                       sessions = [], user_mailboxes = []\<rparr>)
           = Inr (Some sess, st'') \<and> session_email sess = ''a@x.com'')"
proof -
  have r: "register demo_kdf (demo_env 1000) ''a@x.com'' ''password123'' True (AuthStore empty_auth)
     = Inr (\<lparr>user_id = ''uuid-'', user_email = ''a@x.com'', user_isAdmin = True,
              user_createdAt = 1000, user_updatedAt = 1000\<rparr>,
            AuthStore \<lparr>users = [\<lparr>u_id = ''uuid-'', u_email = ''a@x.com'',
                          u_password_hash = hashPassword demo_kdf (demo_env 1000) ''password123'',
                          u_is_admin = 1, u_created_at = 1000, u_updated_at = 1000\<rparr>],
                       sessions = [], user_mailboxes = []\<rparr>)"
    by (simp add: register_def insert_user_def demo_env_def empty_auth_def Let_def)
  from hashPassword_verifyPassword_roundtrip
         [of demo_kdf "''password123''" "demo_env 1000" "''x''" 0 "[]" 0 "[]" "''a@x.com''" True
             "AuthStore empty_auth" _ _ "demo_env 2000"]
  show ?thesis using r by blast
qed

text \<open>
  Claim C4. On the AUTH store \<open>ensureDefaultAdmins\<close> never raises; a second call leaves
  the store of the first call as it is; user rows with distinct emails and distinct ids
  stay so; once a user row exists the call changes nothing; and the seeding loop leaves
  a table that already holds the administrator addresses as it is, each rejected insert
  being swallowed.
\<close>

theorem ensureDefaultAdmins_idempotent:
  "(\<exists>db'. ensureDefaultAdmins kdf e (AuthStore db) = Inr (AuthStore db')
       \<and> ensureDefaultAdmins kdf e' (AuthStore db') = Inr (AuthStore db')
       \<and> (distinct (map u_email (users db)) \<and> distinct (map u_id (users db)) \<longrightarrow>
            distinct (map u_email (users db')) \<and> distinct (map u_id (users db'))))
   \<and> (users db \<noteq> [] \<longrightarrow> ensureDefaultAdmins kdf e (AuthStore db) = Inr (AuthStore db))
   \<and> (set admins \<subseteq> set (map u_email rows) \<longrightarrow> seed_admins e passwordHash 0 admins rows = rows)"
proof (intro conjI impI)
  show "\<exists>db'. ensureDefaultAdmins kdf e (AuthStore db) = Inr (AuthStore db')
       \<and> ensureDefaultAdmins kdf e' (AuthStore db') = Inr (AuthStore db')
       \<and> (distinct (map u_email (users db)) \<and> distinct (map u_id (users db)) \<longrightarrow>
            distinct (map u_email (users db')) \<and> distinct (map u_id (users db')))"
  proof (cases "users db = []")
    case False
    then show ?thesis by (auto simp: ensureDefaultAdmins_def)
  next
    case True
    let ?rows = "seed_admins e (hashPassword kdf e ''admin'') 0 admins (users db)"
    have ne: "?rows \<noteq> []"
      by (rule seed_admins_nonempty) (simp add: admins_def)
    have 1: "ensureDefaultAdmins kdf e (AuthStore db) = Inr (AuthStore (db\<lparr>users := ?rows\<rparr>))"
      using True by (simp add: ensureDefaultAdmins_def Let_def)
    have 2: "ensureDefaultAdmins kdf e' (AuthStore (db\<lparr>users := ?rows\<rparr>))
               = Inr (AuthStore (db\<lparr>users := ?rows\<rparr>))"
      using ne by (simp add: ensureDefaultAdmins_def)
    have 3: "distinct (map u_email ?rows) \<and> distinct (map u_id ?rows)"
      using True by (intro seed_admins_distinct) simp_all
    from 1 2 3 show ?thesis by auto
  qed
next
  assume "users db \<noteq> []"
  then show "ensureDefaultAdmins kdf e (AuthStore db) = Inr (AuthStore db)"
    by (simp add: ensureDefaultAdmins_def)
next
  assume "set admins \<subseteq> set (map u_email rows)"
  then show "seed_admins e passwordHash 0 admins rows = rows"
    by (rule seed_admins_present)
qed

theorem ensureDefaultAdmins_idempotent_witness:
  "ensureDefaultAdmins demo_kdf (demo_env 1000) (AuthStore empty_auth)
     = Inr (AuthStore \<lparr>users =
         [\<lparr>u_id = ''uuid-'', u_email = ''admin@email.230406.xyz'',
           u_password_hash = hashPassword demo_kdf (demo_env 1000) ''admin'',
           u_is_admin = 1, u_created_at = 1000, u_updated_at = 1000\<rparr>,
          \<lparr>u_id = ''uuid-x'', u_email = ''admin@230406.xyz'',
           u_password_hash = hashPassword demo_kdf (demo_env 1000) ''admin'',
           u_is_admin = 1, u_created_at = 1000, u_updated_at = 1000\<rparr>],
         sessions = [], user_mailboxes = []\<rparr>)
   \<and> users sample_auth \<noteq> []
   \<and> ensureDefaultAdmins demo_kdf (demo_env 3000) (AuthStore sample_auth) = Inr (AuthStore sample_auth)"
proof -
  have 1: "ensureDefaultAdmins demo_kdf (demo_env 1000) (AuthStore empty_auth)
     = Inr (AuthStore \<lparr>users =
         [\<lparr>u_id = ''uuid-'', u_email = ''admin@email.230406.xyz'',
           u_password_hash = hashPassword demo_kdf (demo_env 1000) ''admin'',
           u_is_admin = 1, u_created_at = 1000, u_updated_at = 1000\<rparr>,
          \<lparr>u_id = ''uuid-x'', u_email = ''admin@230406.xyz'',
           u_password_hash = hashPassword demo_kdf (demo_env 1000) ''admin'',
           u_is_admin = 1, u_created_at = 1000, u_updated_at = 1000\<rparr>],
         sessions = [], user_mailboxes = []\<rparr>)"
    by (simp add: ensureDefaultAdmins_def empty_auth_def admins_def insert_user_def
          demo_env_def Let_def)
  have 2: "users sample_auth \<noteq> []" by (simp add: sample_auth_def)
  from ensureDefaultAdmins_idempotent [of demo_kdf "demo_env 3000" sample_auth] 2
  have 3: "ensureDefaultAdmins demo_kdf (demo_env 3000) (AuthStore sample_auth) = Inr (AuthStore sample_auth)"
    by blast
  from 1 2 3 show ?thesis by blast
qed

text \<open>
  Claim C5. \<open>deleteEmail\<close> returns, for each attachment row of the email at the time of
  the call and in table order, its \<open>id\<close> and \<open>filename\<close> (the columns it selects);
  afterwards no email row has the id, the other email rows are kept, and when the email
  existed its attachment rows are gone with it. The result holds rows and the store
  only: the operation has no access to blob storage.
\<close>

theorem deleteEmail_cascade:
  "\<exists>db'. deleteEmail i (MailboxStore db)
            = Inr (map (\<lambda>a. (a_id a, a_filename a))
                     (filter (\<lambda>a. a_email_id a = i) (attachments db)),
                   MailboxStore db')
     \<and> emails db' = filter (\<lambda>e. e_id e \<noteq> i) (emails db)
     \<and> i \<notin> set (map e_id (emails db'))
     \<and> (i \<in> set (map e_id (emails db)) \<longrightarrow>
          attachments db' = filter (\<lambda>a. a_email_id a \<noteq> i) (attachments db)
          \<and> i \<notin> set (map a_email_id (attachments db')))
     \<and> folders db' = folders db"
  by (auto simp: deleteEmail_def delete_email_rows_def sql_select_def sql_delete_def Let_def)

theorem deleteEmail_cascade_witness:
  "''m1'' \<in> set (map e_id (emails sample_mailbox))
   \<and> deleteEmail ''m1'' (MailboxStore sample_mailbox)
       = Inr ([(''a1'', ''one.txt''), (''a3'', ''three.txt'')],
              MailboxStore \<lparr>folders = folders sample_mailbox,
                 emails = [sample_email ''m2'' ''2024-01-01'' ''inbox'',
                           sample_email ''m3'' ''2024-01-03'' ''sent''],
                 attachments = [sample_attachment ''a2'' ''m3'' ''two.txt'']\<rparr>)"
proof -
  have m: "''m1'' \<in> set (map e_id (emails sample_mailbox))"
    by (simp add: sample_mailbox_def sample_email_def)
  from deleteEmail_cascade [of "''m1''" sample_mailbox] m
  obtain db' where d: "deleteEmail ''m1'' (MailboxStore sample_mailbox)
            = Inr (map (\<lambda>a. (a_id a, a_filename a))
                     (filter (\<lambda>a. a_email_id a = ''m1'') (attachments sample_mailbox)),
                   MailboxStore db')"
    and e: "emails db' = filter (\<lambda>e. e_id e \<noteq> ''m1'') (emails sample_mailbox)"
    and a: "attachments db' = filter (\<lambda>a. a_email_id a \<noteq> ''m1'') (attachments sample_mailbox)"
    and f: "folders db' = folders sample_mailbox"
    by blast
  have "db' = \<lparr>folders = folders sample_mailbox,
                 emails = [sample_email ''m2'' ''2024-01-01'' ''inbox'',
                           sample_email ''m3'' ''2024-01-03'' ''sent''],
                 attachments = [sample_attachment ''a2'' ''m3'' ''two.txt'']\<rparr>"
    using e a f by (cases db') (simp add: sample_mailbox_def sample_email_def sample_attachment_def)
  with d m show ?thesis
    by (simp add: sample_mailbox_def sample_attachment_def)
qed




text \<open>
  Claim C7. The offset is \<open>(page - 1) * limit\<close>, with page 1 and limit 25 when absent.
  On a mailbox of three emails, whatever order the engine gives them for the default
  clause \<open>date DESC\<close>, page 1 with limit 2 has two results, page 2 has one, and the
  two pages together are the three emails, each once.
\<close>

theorem getEmails_pagination:
  assumes "orders engine ''date DESC''" and "length (emails db) = 3"
  shows "(\<exists>p1 p2.
            getEmails engine \<lparr>folder = None, page = Some 1, limit = Some 2,
                               sortColumn = None, sortDirection = None\<rparr> (MailboxStore db) = Inr p1
          \<and> getEmails engine \<lparr>folder = None, page = Some 2, limit = Some 2,
                               sortColumn = None, sortDirection = None\<rparr> (MailboxStore db) = Inr p2
          \<and> length p1 = 2 \<and> length p2 = 1
          \<and> mset (p1 @ p2) = mset (map to_item (emails db)))
       \<and> q_limit (getEmails_query options) = (case limit options of None \<Rightarrow> 25 | Some l \<Rightarrow> l)
       \<and> q_offset (getEmails_query options)
           = ((case page options of None \<Rightarrow> 1 | Some p \<Rightarrow> p) - 1)
             * (case limit options of None \<Rightarrow> 25 | Some l \<Rightarrow> l)"
proof (intro conjI)
  from assms(1) obtain ordered where
    eng: "engine ''date DESC'' (emails db) = Inr ordered" and ms: "mset ordered = mset (emails db)"
    by (rule orders_obtain)
  from ms have "length ordered = length (emails db)" by (rule mset_eq_length)
  with assms(2) have len: "length ordered = 3" by simp
  let ?p1 = "map to_item (take 2 ordered)" and ?p2 = "map to_item (drop 2 ordered)"
  have g1: "getEmails engine \<lparr>folder = None, page = Some 1, limit = Some 2,
              sortColumn = None, sortDirection = None\<rparr> (MailboxStore db) = Inr ?p1"
    using eng by (simp add: getEmails_def getEmails_query_def execute_emails_query_def
                    sql_limit_offset_def int64_def Let_def)
  have "take 2 (drop 2 ordered) = drop 2 ordered" using len by simp
  then have g2: "getEmails engine \<lparr>folder = None, page = Some 2, limit = Some 2,
              sortColumn = None, sortDirection = None\<rparr> (MailboxStore db) = Inr ?p2"
    using eng by (simp add: getEmails_def getEmails_query_def execute_emails_query_def
                    sql_limit_offset_def int64_def Let_def)
  have "?p1 @ ?p2 = map to_item ordered"
    by (simp flip: map_append)
  then have "mset (?p1 @ ?p2) = mset (map to_item (emails db))"
    using ms by (simp only: mset_map)
  moreover have "length ?p1 = 2" "length ?p2 = 1" using len by simp_all
  ultimately show "\<exists>p1 p2.
            getEmails engine \<lparr>folder = None, page = Some 1, limit = Some 2,
                               sortColumn = None, sortDirection = None\<rparr> (MailboxStore db) = Inr p1
          \<and> getEmails engine \<lparr>folder = None, page = Some 2, limit = Some 2,
                               sortColumn = None, sortDirection = None\<rparr> (MailboxStore db) = Inr p2
          \<and> length p1 = 2 \<and> length p2 = 1
          \<and> mset (p1 @ p2) = mset (map to_item (emails db))"
    using g1 g2 by blast
qed (simp_all add: getEmails_query_def Let_def)

theorem getEmails_pagination_witness:
  "orders sample_engine ''date DESC''
   \<and> length (emails sample_mailbox) = 3
   \<and> (\<exists>p1 p2.
         getEmails sample_engine \<lparr>folder = None, page = Some 1, limit = Some 2,
            sortColumn = None, sortDirection = None\<rparr> (MailboxStore sample_mailbox) = Inr p1
       \<and> getEmails sample_engine \<lparr>folder = None, page = Some 2, limit = Some 2,
            sortColumn = None, sortDirection = None\<rparr> (MailboxStore sample_mailbox) = Inr p2
       \<and> length p1 = 2 \<and> length p2 = 1
       \<and> mset (p1 @ p2) = mset (map to_item (emails sample_mailbox)))
   \<and> map (map_sum id (map item_id))
        [getEmails sample_engine \<lparr>folder = None, page = Some 1, limit = Some 2,
            sortColumn = None, sortDirection = None\<rparr> (MailboxStore sample_mailbox),
         getEmails sample_engine \<lparr>folder = None, page = Some 2, limit = Some 2,
            sortColumn = None, sortDirection = None\<rparr> (MailboxStore sample_mailbox)]
       = [Inr [''m3'', ''m1''], Inr [''m2'']]"
proof -
  have l: "length (emails sample_mailbox) = 3" by (simp add: sample_mailbox_def)
  have c: "map (map_sum id (map item_id))
        [getEmails sample_engine \<lparr>folder = None, page = Some 1, limit = Some 2,
            sortColumn = None, sortDirection = None\<rparr> (MailboxStore sample_mailbox),
         getEmails sample_engine \<lparr>folder = None, page = Some 2, limit = Some 2,
            sortColumn = None, sortDirection = None\<rparr> (MailboxStore sample_mailbox)]
       = [Inr [''m3'', ''m1''], Inr [''m2'']]"
    by (simp add: getEmails_def getEmails_query_def execute_emails_query_def sample_engine_def
          sql_limit_offset_def int64_def sample_mailbox_def sample_email_def to_item_def
          Let_def less_eq_list_code less_list_code)
  from getEmails_pagination [OF sample_engine_orders l] sample_engine_orders l c
  show ?thesis by blast
qed

text \<open>
  Claim C8. On a mailbox store, \<open>createFolder\<close> returns null and leaves the store as it
  is when the id or the name is taken; it never raises; and whatever the first call
  returned, a second call with the same id and name returns null.
\<close>

theorem createFolder_collision:
  "(i \<in> set (map f_id (folders db)) \<or> name \<in> set (map f_name (folders db)) \<longrightarrow>
      createFolder i name (MailboxStore db) = Inr (None, MailboxStore db))
   \<and> (\<exists>r st'. createFolder i name (MailboxStore db) = Inr (r, st')
         \<and> createFolder i name st' = Inr (None, st'))"
proof (intro conjI impI)
  assume "i \<in> set (map f_id (folders db)) \<or> name \<in> set (map f_name (folders db))"
  then show "createFolder i name (MailboxStore db) = Inr (None, MailboxStore db)"
    by (rule createFolder_collides)
next
  show "\<exists>r st'. createFolder i name (MailboxStore db) = Inr (r, st')
         \<and> createFolder i name st' = Inr (None, st')"
  proof (cases "i \<in> set (map f_id (folders db)) \<or> name \<in> set (map f_name (folders db))")
    case True
    then show ?thesis using createFolder_collides [of i db name] by auto
  next
    case False
    then have 1: "createFolder i name (MailboxStore db)
     = Inr (Some \<lparr>folder_id = i, folder_name = name, unreadCount = 0\<rparr>,
            MailboxStore (db\<lparr>folders := folders db @ [\<lparr>f_id = i, f_name = name, f_is_deletable = 1\<rparr>]\<rparr>))"
      using createFolder_fresh [of i db name] by simp
    have 2: "createFolder i name
               (MailboxStore (db\<lparr>folders := folders db @ [\<lparr>f_id = i, f_name = name, f_is_deletable = 1\<rparr>]\<rparr>))
             = Inr (None, MailboxStore (db\<lparr>folders := folders db @ [\<lparr>f_id = i, f_name = name, f_is_deletable = 1\<rparr>]\<rparr>))"
      by (rule createFolder_collides) simp
    from 1 2 show ?thesis by blast
  qed
qed

theorem createFolder_collision_witness:
  "createFolder ''test-folder'' ''Test Folder'' (MailboxStore sample_mailbox)
     = Inr (Some \<lparr>folder_id = ''test-folder'', folder_name = ''Test Folder'', unreadCount = 0\<rparr>,
            MailboxStore (sample_mailbox\<lparr>folders := folders sample_mailbox @
               [\<lparr>f_id = ''test-folder'', f_name = ''Test Folder'', f_is_deletable = 1\<rparr>]\<rparr>))
   \<and> ''test-folder'' \<in> set (map f_id (folders (sample_mailbox\<lparr>folders := folders sample_mailbox @
               [\<lparr>f_id = ''test-folder'', f_name = ''Test Folder'', f_is_deletable = 1\<rparr>]\<rparr>)))
   \<and> createFolder ''test-folder'' ''Test Folder''
        (MailboxStore (sample_mailbox\<lparr>folders := folders sample_mailbox @
               [\<lparr>f_id = ''test-folder'', f_name = ''Test Folder'', f_is_deletable = 1\<rparr>]\<rparr>))
     = Inr (None, MailboxStore (sample_mailbox\<lparr>folders := folders sample_mailbox @
               [\<lparr>f_id = ''test-folder'', f_name = ''Test Folder'', f_is_deletable = 1\<rparr>]\<rparr>))"
proof -
  let ?db = "sample_mailbox\<lparr>folders := folders sample_mailbox @
               [\<lparr>f_id = ''test-folder'', f_name = ''Test Folder'', f_is_deletable = 1\<rparr>]\<rparr>"
  have 1: "createFolder ''test-folder'' ''Test Folder'' (MailboxStore sample_mailbox)
     = Inr (Some \<lparr>folder_id = ''test-folder'', folder_name = ''Test Folder'', unreadCount = 0\<rparr>,
            MailboxStore ?db)"
    by (rule createFolder_fresh) (simp_all add: sample_mailbox_def)
  have 2: "''test-folder'' \<in> set (map f_id (folders ?db))" by simp
  from createFolder_collision [of "''test-folder''" ?db "''Test Folder''"] 2
  have 3: "createFolder ''test-folder'' ''Test Folder'' (MailboxStore ?db) = Inr (None, MailboxStore ?db)"
    by blast
  from 1 2 3 show ?thesis by blast
qed

text \<open>
  Claim C9. For every sort column and sort direction the ordering clause of the query is
  \<open>sortColumn + " " + sortDirection\<close>. It reaches the engine as it is: an engine that
  answers with the clause it was given shows exactly the concatenation. With an engine
  that accepts every clause the listing returns for every pair, at the default page and
  limit and at every page and limit whose limit and offset are safe integers.
\<close>

theorem getEmails_orderBy_passthrough:
  "q_orderBy (getEmails_query \<lparr>folder = f, page = p, limit = l,
                sortColumn = Some c, sortDirection = Some d\<rparr>) = c @ '' '' @ d
   \<and> getEmails (\<lambda>clause rows. Inl (Error clause))
        \<lparr>folder = f, page = p, limit = l, sortColumn = Some c, sortDirection = Some d\<rparr>
        (MailboxStore db) = Inl (Error (c @ '' '' @ d))
   \<and> (\<exists>items. getEmails (\<lambda>clause rows. Inr rows)
        \<lparr>folder = f, page = None, limit = None, sortColumn = Some c, sortDirection = Some d\<rparr>
        (MailboxStore db) = Inr items)
   \<and> (safe_integer (case l of None \<Rightarrow> 25 | Some v \<Rightarrow> v)
        \<and> safe_integer (((case p of None \<Rightarrow> 1 | Some v \<Rightarrow> v) - 1)
                          * (case l of None \<Rightarrow> 25 | Some v \<Rightarrow> v)) \<longrightarrow>
         (\<exists>items. getEmails (\<lambda>clause rows. Inr rows)
            \<lparr>folder = f, page = p, limit = l, sortColumn = Some c, sortDirection = Some d\<rparr>
            (MailboxStore db) = Inr items))"
  by (auto simp: getEmails_def getEmails_query_def execute_emails_query_def
        sql_limit_offset_def int64_def safe_integer_def Let_def)

theorem getEmails_orderBy_passthrough_witness:
  "safe_integer 10 \<and> safe_integer ((2 - 1) * 10)
   \<and> (\<exists>items. getEmails (\<lambda>clause rows. Inr rows)
          \<lparr>folder = None, page = Some 2, limit = Some 10,
           sortColumn = Some ''no_such_column'', sortDirection = Some ''sideways''\<rparr>
          (MailboxStore sample_mailbox) = Inr items)
   \<and> getEmails (\<lambda>clause rows. Inl (Error clause))
          \<lparr>folder = None, page = Some 2, limit = Some 10,
           sortColumn = Some ''no_such_column'', sortDirection = Some ''sideways''\<rparr>
          (MailboxStore sample_mailbox) = Inl (Error ''no_such_column sideways'')"
proof -
  have s: "safe_integer 10" "safe_integer ((2 - 1) * 10)" by (simp_all add: safe_integer_def)
  from getEmails_orderBy_passthrough
         [of None "Some 2" "Some 10" "''no_such_column''" "''sideways''" sample_mailbox] s
  show ?thesis by simp
qed

text \<open>
  Claim C10. On a store that is not the AUTH instance, \<open>hasUsers\<close> and \<open>isAdmin\<close> return
  false, and each of the other twelve credential operations throws
  \<open>Not an auth DO\<close>.
\<close>

theorem not_auth_store_guards:
  assumes "\<not> isAuthDO st"
  shows "hasUsers st = Inr False
       \<and> isAdmin userId st = Inr False
       \<and> register kdf e email password isFirstUser st = Inl (Error ''Not an auth DO'')
       \<and> login kdf e email password st = Inl (Error ''Not an auth DO'')
       \<and> validateSession e sessionId st = Inl (Error ''Not an auth DO'')
       \<and> logout sessionId st = Inl (Error ''Not an auth DO'')
       \<and> ensureDefaultAdmins kdf e st = Inl (Error ''Not an auth DO'')
       \<and> getUsers st = Inl (Error ''Not an auth DO'')
       \<and> getUserByEmail email st = Inl (Error ''Not an auth DO'')
       \<and> updateUserPassword kdf e userId newPassword st = Inl (Error ''Not an auth DO'')
       \<and> updateUserAdminStatus e userId flag st = Inl (Error ''Not an auth DO'')
       \<and> grantMailboxAccess userId mailboxId role st = Inl (Error ''Not an auth DO'')
       \<and> revokeMailboxAccess userId mailboxId st = Inl (Error ''Not an auth DO'')
       \<and> getUserMailboxes userId st = Inl (Error ''Not an auth DO'')"
proof (cases st)
  case (AuthStore db)
  with assms show ?thesis by simp
next
  case (MailboxStore m)
  then show ?thesis
    by (simp add: hasUsers_def isAdmin_def register_def login_def validateSession_def
          logout_def ensureDefaultAdmins_def getUsers_def getUserByEmail_def
          updateUserPassword_def updateUserAdminStatus_def grantMailboxAccess_def
          revokeMailboxAccess_def getUserMailboxes_def not_auth_def)
qed

theorem not_auth_store_guards_witness:
  "\<not> isAuthDO (MailboxStore sample_mailbox)
   \<and> hasUsers (MailboxStore sample_mailbox) = Inr False
   \<and> isAdmin ''u1'' (MailboxStore sample_mailbox) = Inr False
   \<and> login demo_kdf (demo_env 2000) ''a@x.com'' ''password123'' (MailboxStore sample_mailbox)
       = Inl (Error ''Not an auth DO'')"
proof -
  have n: "\<not> isAuthDO (MailboxStore sample_mailbox)" by simp
  from not_auth_store_guards [OF n, of "''u1''" demo_kdf "demo_env 2000" "''a@x.com''" "''password123''"]
  show ?thesis using n by blast
qed

end
